theory Spec2Isabelle
  imports Complex_Main "HOL-Library.Log_Nat"
begin

section \<open>The gaze viewer of \<open>sample_viewer/js/view_gaze.js\<close>\<close>

text \<open>
  The viewer replays recorded gaze points over a stimulus image. Its private bag \<open>my\<close>
  becomes the record \<open>my_state\<close>, with one field \<open>my_x\<close> for every \<open>my.x\<close> that the
  playback and drawing code reads or writes, followed by the parts of the page the code
  acts on: the canvas of the renderer, the callbacks queued with \<open>window.setTimeout\<close>,
  the label of the play/pause button and the selected navigation entry.

  Objects used as dictionaries are association lists in enumeration order (keys
  distinct, as in an object); \<open>undefined\<close> is \<open>None\<close>. The names of stimuli, viewers and
  groups are taken not to be names of members that every object inherits (such as
  \<open>constructor\<close>). Reading a property of \<open>undefined\<close> raises a TypeError, which leaves
  the fields written so far in place: an operation yields \<open>Returns s\<close> or \<open>Throws e s\<close>,
  where \<open>s\<close> is the state at the return or at the throw.

  The time readouts, the image source, the thumbnails and the console output are written
  to the page only and never read back; they are left out.
\<close>

subsection \<open>Numbers\<close>

text \<open>
  A Number is a binary64 value: a finite one, given by the rational it denotes, or NaN
  or one of the infinities. The two zeros are not told apart: the viewer neither divides
  by a computed number nor shows the sign of a zero. Every arithmetic operation yields
  the exact result rounded to the nearest binary64 value, ties to the even significand.
\<close>

datatype js_number = Num rat | NaN | PosInf | NegInf

text \<open>The power of two at or below the magnitude of a rational other than 0.\<close>

definition binade :: "rat \<Rightarrow> int" where
  "binade x =
     (let (p, q) = quotient_of \<bar>x\<bar>; d = bitlen p - bitlen q
      in if 2 powi d \<le> \<bar>x\<bar> then d else d - 1)"

definition round_half_even :: "rat \<Rightarrow> int" where
  "round_half_even m =
     (let f = \<lfloor>m\<rfloor>; r = m - of_int f
      in if r < 1 / 2 then f else if 1 / 2 < r then f + 1 else if even f then f else f + 1)"

text \<open>
  The spacing of the binary64 values around \<open>x\<close> is \<open>2\<close> to the power \<open>ulp_exponent x\<close>:
  53 significant bits, and the fixed spacing of the subnormal values at the bottom.
\<close>

definition ulp_exponent :: "rat \<Rightarrow> int" where
  "ulp_exponent x = max (binade x - 52) (- 1074)"

definition to_grid :: "int \<Rightarrow> rat \<Rightarrow> rat" where
  "to_grid k x = of_int (round_half_even (x / 2 powi k)) * 2 powi k"

definition round64 :: "rat \<Rightarrow> rat" where
  "round64 x = to_grid (ulp_exponent x) x"

text \<open>The Number for an exact result: rounded, and an infinity beyond the largest value.\<close>

definition fl :: "rat \<Rightarrow> js_number" where
  "fl x =
     (let r = round64 x
      in if 2 powi 1024 \<le> r then PosInf else if r \<le> - (2 powi 1024) then NegInf else Num r)"

definition js_int :: "int \<Rightarrow> js_number" where
  "js_int i = Num (of_int i)"

text \<open>An infinity times a finite factor \<open>a\<close>, by the sign of \<open>a\<close>.\<close>

definition inf_times :: "rat \<Rightarrow> js_number" where
  "inf_times a = (if a = 0 then NaN else if 0 < a then PosInf else NegInf)"

fun js_times :: "js_number \<Rightarrow> js_number \<Rightarrow> js_number" where
  "js_times NaN y = NaN"
| "js_times x NaN = NaN"
| "js_times (Num a) (Num b) = fl (a * b)"
| "js_times (Num a) PosInf = inf_times a"
| "js_times (Num a) NegInf = inf_times (- a)"
| "js_times PosInf (Num b) = inf_times b"
| "js_times NegInf (Num b) = inf_times (- b)"
| "js_times PosInf PosInf = PosInf"
| "js_times PosInf NegInf = NegInf"
| "js_times NegInf PosInf = NegInf"
| "js_times NegInf NegInf = PosInf"

fun js_plus :: "js_number \<Rightarrow> js_number \<Rightarrow> js_number" where
  "js_plus NaN y = NaN"
| "js_plus x NaN = NaN"
| "js_plus (Num a) (Num b) = fl (a + b)"
| "js_plus PosInf NegInf = NaN"
| "js_plus NegInf PosInf = NaN"
| "js_plus PosInf y = PosInf"
| "js_plus NegInf y = NegInf"
| "js_plus (Num a) y = y"

text \<open>\<open>x / 1000\<close>, the one division the viewer computes with.\<close>

fun over_1000 :: "js_number \<Rightarrow> js_number" where
  "over_1000 (Num a) = fl (a / 1000)"
| "over_1000 x = x"

fun js_floor :: "js_number \<Rightarrow> js_number" where
  "js_floor (Num a) = Num (of_int \<lfloor>a\<rfloor>)"
| "js_floor x = x"

text \<open>\<open>x >= y\<close>: false whenever one side is NaN.\<close>

fun js_ge :: "js_number \<Rightarrow> js_number \<Rightarrow> bool" where
  "js_ge NaN y = False"
| "js_ge x NaN = False"
| "js_ge (Num a) (Num b) = (b \<le> a)"
| "js_ge PosInf y = True"
| "js_ge x NegInf = True"
| "js_ge x y = False"

text \<open>
  \<open>parseFloat\<close> of a text, as the language defines it: white space is skipped, the
  longest prefix that is a decimal literal (sign, digits with a fraction, exponent, or
  \<open>Infinity\<close>) gives the value, and there is none when no prefix is one. Texts are taken
  to be in ASCII.
\<close>

definition is_white_space :: "char \<Rightarrow> bool" where
  "is_white_space c \<longleftrightarrow> c \<in> set [CHR 0x09, CHR 0x0A, CHR 0x0B, CHR 0x0C, CHR 0x0D, CHR '' '']"

definition digit_value :: "char \<Rightarrow> nat option" where
  "digit_value =
     map_of [(CHR ''0'', 0), (CHR ''1'', 1), (CHR ''2'', 2), (CHR ''3'', 3), (CHR ''4'', 4),
             (CHR ''5'', 5), (CHR ''6'', 6), (CHR ''7'', 7), (CHR ''8'', 8), (CHR ''9'', 9)]"

definition is_digit :: "char \<Rightarrow> bool" where
  "is_digit c \<longleftrightarrow> digit_value c \<noteq> None"

text \<open>The number that a sequence of digits denotes, most significant digit first.\<close>

fun decimal :: "nat \<Rightarrow> string \<Rightarrow> nat" where
  "decimal acc [] = acc"
| "decimal acc (c # cs) =
     decimal (10 * acc + (case digit_value c of None \<Rightarrow> 0 | Some d \<Rightarrow> d)) cs"

text \<open>The exponent that the text starts with, 0 when it starts with none.\<close>

definition exponent_part :: "string \<Rightarrow> int" where
  "exponent_part t =
     (case t of
        [] \<Rightarrow> 0
      | c # r \<Rightarrow>
          if c = CHR ''e'' \<or> c = CHR ''E''
          then (let (negative, u) =
                      (case r of
                         [] \<Rightarrow> (False, r)
                       | d # v \<Rightarrow> if d = CHR ''-'' then (True, v)
                                  else if d = CHR ''+'' then (False, v) else (False, r));
                    digits = takeWhile is_digit u
                in if digits = [] then 0
                   else if negative then - int (decimal 0 digits) else int (decimal 0 digits))
          else 0)"

definition parseFloat :: "string \<Rightarrow> js_number" where
  "parseFloat input =
     (let t = dropWhile is_white_space input;
          (negative, u) =
            (case t of
               [] \<Rightarrow> (False, t)
             | c # r \<Rightarrow> if c = CHR ''-'' then (True, r)
                        else if c = CHR ''+'' then (False, r) else (False, t))
      in if take 8 u = ''Infinity'' then (if negative then NegInf else PosInf)
         else
           (let whole = takeWhile is_digit u;
                r1 = dropWhile is_digit u;
                (fraction, r2) =
                  (case r1 of
                     [] \<Rightarrow> ([], r1)
                   | c # r \<Rightarrow> if c = CHR ''.''
                              then (takeWhile is_digit r, dropWhile is_digit r) else ([], r1))
            in if whole = [] \<and> fraction = [] then NaN
               else
                 (let mv = of_nat (decimal 0 (whole @ fraction)) / 10 ^ length fraction
                             * 10 powi exponent_part r2
                  in fl (if negative then - mv else mv))))"

subsection \<open>Data\<close>

type_synonym point = "rat \<times> rat"

text \<open>One viewing of a stimulus: an array with a point or nothing at each sample index.\<close>

type_synonym view_array = "point option list"

type_synonym stim_data = "(string \<times> view_array list) list"

record viewer =
  viewer_group :: string

record view_data =
  stims :: "string list"
  viewers :: "viewer list"
  viewer_directory :: "(string \<times> int) list"
  viewer_groups :: "string list"
  viewdata :: "(string \<times> stim_data) list"
  samples_per_second :: js_number

record group_style =
  stroke_style :: string
  fill_style :: string

text \<open>What \<open>ellipse\<close> paints: centre, radii, fill and stroke colour, line width.\<close>

record shape =
  cx :: rat
  cy :: rat
  rx :: rat
  ry :: rat
  fill :: string
  stroke :: string
  line_width :: rat

record my_state =
  my_point_index :: js_number
  my_playing :: bool
  my_view_data :: view_data
  my_playback_speed :: js_number
  my_point_index_offset :: js_number
  my_color_scheme :: "(string \<times> string) list"
  my_play_started_at :: int
  my_rendered_count :: nat
  my_stim_index :: int
  my_stim_name :: "string option"
  my_stim_data :: "stim_data option"
  my_gaze_len :: int
  my_nav_array :: "nat list"
  my_group_styles :: "string \<rightharpoonup> group_style"
  canvas :: "shape list"
  draw_calls :: "js_number list"
  timeouts :: nat
  pp_button :: string
  nav_selected :: "nat option"

text \<open>
  \<open>canvas\<close> holds the shapes on the drawing surface since the last \<open>clear\<close>.
  \<open>draw_calls\<close> is the trace of the calls of \<open>draw_current_points\<close>: the value of
  \<open>my.point_index\<close> at each call, oldest first. \<open>timeouts\<close> counts the callbacks
  \<open>render_and_schedule\<close> queued with \<open>window.setTimeout\<close> that have not fired yet.
  An entry of \<open>my_nav_array\<close> is the list item built for the stimulus of that number.
  The delay \<open>my.schedule_ms\<close> of a queued callback is not kept: when a callback fires
  is the browser's choice, given to \<open>timeout_fires\<close> as the clock reading.
\<close>

datatype js_error = TypeError

datatype outcome = Returns my_state | Throws js_error my_state

text \<open>\<open>a[i]\<close> on an array: \<open>undefined\<close> outside the array, never an error.\<close>

definition js_index :: "'a list \<Rightarrow> int \<Rightarrow> 'a option" where
  "js_index xs i = (if 0 \<le> i \<and> i < int (length xs) then Some (xs ! nat i) else None)"

text \<open>The same with a Number as the index: \<open>undefined\<close> unless it is a whole number.\<close>

definition js_at :: "'a list \<Rightarrow> js_number \<Rightarrow> 'a option" where
  "js_at xs x =
     (case x of
        Num r \<Rightarrow> if r = of_int \<lfloor>r\<rfloor> then js_index xs \<lfloor>r\<rfloor> else None
      | _ \<Rightarrow> None)"

text \<open>\<open>for (k in obj)\<close>: no iteration at all when \<open>obj\<close> is \<open>undefined\<close>.\<close>

definition for_in :: "'a list option \<Rightarrow> 'a list" where
  "for_in obj = (case obj of None \<Rightarrow> [] | Some entries \<Rightarrow> entries)"

subsection \<open>The renderer\<close>

definition ellipse :: "shape \<Rightarrow> my_state \<Rightarrow> my_state" where
  "ellipse shape_data s = s\<lparr>canvas := canvas s @ [shape_data]\<rparr>"

text \<open>
  \<open>circle\<close> passes no stroke width, so \<open>ellipse\<close> takes 0; an empty colour string is
  falsy and replaced by the default colour.
\<close>

definition circle :: "rat \<Rightarrow> rat \<Rightarrow> rat \<Rightarrow> string \<Rightarrow> string \<Rightarrow> my_state \<Rightarrow> my_state" where
  "circle x y r fill_st stroke_st s =
     ellipse \<lparr>cx = x, cy = y, rx = r, ry = r,
              fill = (if fill_st = [] then ''#FFFFFF'' else fill_st),
              stroke = (if stroke_st = [] then ''#000000'' else stroke_st),
              line_width = 0\<rparr> s"

definition clear :: "my_state \<Rightarrow> my_state" where
  "clear s = s\<lparr>canvas := []\<rparr>"

subsection \<open>Session length\<close>

fun gaze_len_arrays :: "view_array list \<Rightarrow> int \<Rightarrow> int" where
  "gaze_len_arrays [] mx = mx"
| "gaze_len_arrays (a # rest) mx =
     gaze_len_arrays rest (if int (length a) > mx then int (length a) else mx)"

fun gaze_len_viewers :: "stim_data \<Rightarrow> int \<Rightarrow> int" where
  "gaze_len_viewers [] mx = mx"
| "gaze_len_viewers ((viewer_name, view_arrays) # rest) mx =
     gaze_len_viewers rest (gaze_len_arrays view_arrays mx)"

definition gaze_len :: "my_state \<Rightarrow> int" where
  "gaze_len s = gaze_len_viewers (for_in (my_stim_data s)) 0"

subsection \<open>Drawing\<close>

text \<open>
  The inner loop of \<open>draw_current_points\<close>: \<open>style_data\<close> is \<open>undefined\<close> when the group
  of the viewer has no style, and is only dereferenced when a point is drawn.
\<close>

fun draw_view_arrays :: "view_array list \<Rightarrow> group_style option \<Rightarrow> my_state \<Rightarrow> outcome" where
  "draw_view_arrays [] style_data s = Returns s"
| "draw_view_arrays (a # rest) style_data s =
     (case js_at a (my_point_index s) of
        Some (Some p) \<Rightarrow>
          (case style_data of
             None \<Rightarrow> Throws TypeError s
           | Some st \<Rightarrow>
               draw_view_arrays rest style_data
                 (circle (fst p) (snd p) 2 (fill_style st) (stroke_style st) s))
      | _ \<Rightarrow> draw_view_arrays rest style_data s)"

definition viewer_data_of :: "view_data \<Rightarrow> string \<Rightarrow> viewer option" where
  "viewer_data_of vd viewer_name =
     (case map_of (viewer_directory vd) viewer_name of
        None \<Rightarrow> None
      | Some k \<Rightarrow> js_index (viewers vd) k)"

fun draw_viewers :: "stim_data \<Rightarrow> my_state \<Rightarrow> outcome" where
  "draw_viewers [] s = Returns s"
| "draw_viewers ((viewer_name, view_arrays) # rest) s =
     (case viewer_data_of (my_view_data s) viewer_name of
        None \<Rightarrow> Throws TypeError s
      | Some viewer_data \<Rightarrow>
          (case draw_view_arrays view_arrays
                  (my_group_styles s (viewer_group viewer_data)) s of
             Throws e s' \<Rightarrow> Throws e s'
           | Returns s' \<Rightarrow> draw_viewers rest s'))"

definition draw_current_points :: "my_state \<Rightarrow> outcome" where
  "draw_current_points s =
     draw_viewers (for_in (my_stim_data s))
       (s\<lparr>draw_calls := draw_calls s @ [my_point_index s]\<rparr>)"

definition draw_current_frame :: "my_state \<Rightarrow> outcome" where
  "draw_current_frame s = draw_current_points (clear s)"

text \<open>
  The loop of \<open>overdraw_all_frames\<close> from index \<open>i\<close> on; the bound \<open>my.gaze_len\<close> is read
  again at every test. It ends because drawing leaves \<open>my.gaze_len\<close> alone.
\<close>

function overdraw_from :: "int \<Rightarrow> my_state \<Rightarrow> outcome" where
  "overdraw_from i s =
     (if i < my_gaze_len s
      then (case draw_current_points (s\<lparr>my_point_index := js_int i\<rparr>) of
              Throws e s' \<Rightarrow> Throws e s'
            | Returns s' \<Rightarrow> overdraw_from (i + 1) s')
      else Returns s)"
  by pat_completeness auto
termination
proof (relation "measure (\<lambda>(i, s). nat (my_gaze_len s - i))")
  show "wf (measure (\<lambda>(i, s). nat (my_gaze_len s - i)))" by simp
next
  fix i :: int and s s' :: my_state
  assume lt: "i < my_gaze_len s"
    and dr: "draw_current_points (s\<lparr>my_point_index := js_int i\<rparr>) = Returns s'"
  have arrays: "draw_view_arrays vas sd t = Returns t' \<Longrightarrow> my_gaze_len t' = my_gaze_len t"
    for vas sd t t'
    by (induction vas sd t rule: draw_view_arrays.induct)
       (auto simp: circle_def ellipse_def split: option.splits)
  have viewers: "draw_viewers vs t = Returns t' \<Longrightarrow> my_gaze_len t' = my_gaze_len t"
    for vs t t'
  proof (induction vs t rule: draw_viewers.induct)
    case (1 t)
    then show ?case by simp
  next
    case (2 viewer_name view_arrays rest t)
    from "2.prems" obtain vd where
      vd: "viewer_data_of (my_view_data t) viewer_name = Some vd"
      by (auto split: option.splits)
    from "2.prems" vd obtain u where
      u: "draw_view_arrays view_arrays (my_group_styles t (viewer_group vd)) t = Returns u"
      and r: "draw_viewers rest u = Returns t'"
      by (auto split: outcome.splits)
    from "2.IH" [OF vd u r] arrays [OF u] show ?case by simp
  qed
  from dr have "my_gaze_len s' = my_gaze_len s"
    by (auto simp: draw_current_points_def dest: viewers)
  with lt show "((i + 1, s'), (i, s)) \<in> measure (\<lambda>(i, s). nat (my_gaze_len s - i))"
    by simp
qed

definition overdraw_all_frames :: "my_state \<Rightarrow> outcome" where
  "overdraw_all_frames s = overdraw_from 0 (clear s)"

subsection \<open>The playback scheduler\<close>

definition set_play_pause :: "my_state \<Rightarrow> my_state" where
  "set_play_pause s = s\<lparr>pp_button := (if my_playing s then ''Pause'' else ''Play'')\<rparr>"

text \<open>
  One run of the frame loop; \<open>now\<close> is the clock reading of its \<open>new Date()\<close>, in
  milliseconds, and the elapsed time is its difference to the epoch. The index is
  computed in the order of the source: elapsed time times speed, times sampling rate,
  divided by 1000, floor, added to the offset. The callback is queued before the
  frame is drawn, and \<open>my.point_index\<close> is advanced after.
\<close>

definition elapsed_ms :: "int \<Rightarrow> my_state \<Rightarrow> js_number" where
  "elapsed_ms now s = fl (of_int now - of_int (my_play_started_at s))"

definition next_index_at :: "int \<Rightarrow> my_state \<Rightarrow> js_number" where
  "next_index_at now s =
     js_plus (my_point_index_offset s)
       (js_floor (over_1000
          (js_times (js_times (elapsed_ms now s) (my_playback_speed s))
             (samples_per_second (my_view_data s)))))"

definition render_and_schedule :: "int \<Rightarrow> my_state \<Rightarrow> outcome" where
  "render_and_schedule now s =
     (let s1 = s\<lparr>my_rendered_count := my_rendered_count s + 1\<rparr>;
          next_index = next_index_at now s1;
          clamped = js_ge next_index (js_int (my_gaze_len s1));
          next_index = (if clamped then js_int (my_gaze_len s1 - 1) else next_index);
          s2 = (if clamped then s1\<lparr>my_playing := False\<rparr> else s1);
          s3 = (if my_playing s2 then s2\<lparr>timeouts := timeouts s2 + 1\<rparr>
                else (set_play_pause s2)\<lparr>my_point_index_offset := my_point_index s2\<rparr>)
      in case draw_current_frame s3 of
           Throws e s' \<Rightarrow> Throws e s'
         | Returns s' \<Rightarrow> Returns (s'\<lparr>my_point_index := next_index\<rparr>))"

text \<open>
  \<open>play\<close> reads the clock for the epoch (\<open>started\<close>) and calls the frame loop at once,
  which reads it again (\<open>now\<close>).
\<close>

definition play :: "bool \<Rightarrow> int \<Rightarrow> int \<Rightarrow> my_state \<Rightarrow> outcome" where
  "play from_start started now s =
     (let s1 = s\<lparr>my_play_started_at := started, my_rendered_count := 0\<rparr>;
          s2 = (if from_start \<or> js_ge (my_point_index s1) (js_int (my_gaze_len s1 - 1))
                then s1\<lparr>my_point_index := Num 0, my_point_index_offset := Num 0\<rparr> else s1)
      in render_and_schedule now (s2\<lparr>my_playing := True\<rparr>))"

text \<open>The public \<open>pause\<close> has an empty body.\<close>

definition pause :: "my_state \<Rightarrow> my_state" where
  "pause s = s"

text \<open>The browser runs one queued callback, if there is one.\<close>

definition timeout_fires :: "int \<Rightarrow> my_state \<Rightarrow> outcome" where
  "timeout_fires now s =
     (if timeouts s = 0 then Returns s
      else render_and_schedule now (s\<lparr>timeouts := timeouts s - 1\<rparr>))"

text \<open>The click handler calls \<open>play()\<close> without an argument: \<open>from_start\<close> is falsy.\<close>

definition handle_play_pause_click :: "int \<Rightarrow> int \<Rightarrow> my_state \<Rightarrow> outcome" where
  "handle_play_pause_click started now s =
     (let s1 = set_play_pause (s\<lparr>my_playing := \<not> my_playing s\<rparr>)
      in if my_playing s1 then play False started now s1 else Returns s1)"

text \<open>
  The change handler stores \<open>parseFloat\<close> of the value of the speed control, given
  here as the text that \<open>parseFloat\<close> converts its argument to.
\<close>

definition handle_speed_change :: "string \<Rightarrow> my_state \<Rightarrow> outcome" where
  "handle_speed_change control_value s =
     Returns (s\<lparr>my_playback_speed := parseFloat control_value\<rparr>)"




text \<open>Calls in sequence (an uncaught error ends the sequence), and reading an outcome.\<close>

definition and_then :: "outcome \<Rightarrow> (my_state \<Rightarrow> outcome) \<Rightarrow> outcome" where
  "and_then r f = (case r of Throws e s \<Rightarrow> Throws e s | Returns s \<Rightarrow> f s)"

definition returns :: "outcome \<Rightarrow> bool" where
  "returns r = (case r of Returns s \<Rightarrow> True | Throws e s \<Rightarrow> False)"

definition state_of :: "outcome \<Rightarrow> my_state" where
  "state_of r = (case r of Returns s \<Rightarrow> s | Throws e s \<Rightarrow> s)"

subsection \<open>Selecting a stimulus\<close>

definition select_nav_element :: "nat \<Rightarrow> my_state \<Rightarrow> my_state" where
  "select_nav_element elt s = s\<lparr>nav_selected := Some elt\<rparr>"

text \<open>
  \<open>my.stim_index\<close> is written first; \<open>select_nav_element\<close> then calls a method of
  \<open>my.nav_array[idx]\<close>, which throws when there is no such entry. A missing name is
  the key \<open>undefined\<close> of \<open>viewdata\<close>.
\<close>

definition set_stim_index :: "int \<Rightarrow> my_state \<Rightarrow> outcome" where
  "set_stim_index idx s =
     (let s1 = s\<lparr>my_stim_index := idx\<rparr>
      in case js_index (my_nav_array s1) idx of
           None \<Rightarrow> Throws TypeError s1
         | Some elt \<Rightarrow>
             (let s2 = select_nav_element elt s1;
                  s3 = s2\<lparr>my_stim_name := js_index (stims (my_view_data s2)) idx\<rparr>;
                  s4 = clear s3;
                  s5 = s4\<lparr>my_stim_data :=
                          map_of (viewdata (my_view_data s4))
                            (case my_stim_name s4 of None \<Rightarrow> ''undefined'' | Some n \<Rightarrow> n)\<rparr>;
                  s6 = s5\<lparr>my_point_index := Num 0, my_point_index_offset := Num 0\<rparr>
              in Returns (s6\<lparr>my_gaze_len := gaze_len s6\<rparr>)))"

subsection \<open>Construction\<close>

definition build_nav :: "my_state \<Rightarrow> my_state" where
  "build_nav s = s\<lparr>my_nav_array := [0..<length (stims (my_view_data s))]\<rparr>"

text \<open>
  The loop of \<open>set_group_styles\<close> from group number \<open>i\<close> on. A role missing from the
  colour scheme is \<open>undefined\<close> and is pasted into the colour string as such.
\<close>

fun group_styles_from ::
  "nat \<Rightarrow> string list \<Rightarrow> (string \<times> string) list \<Rightarrow> (string \<rightharpoonup> group_style)
     \<Rightarrow> (string \<rightharpoonup> group_style)" where
  "group_styles_from i [] cs m = m"
| "group_styles_from i (gname # rest) cs m =
     (let scheme = (case map_of cs (''group_'' @ (if i mod 2 = 0 then ''0'' else ''1'')) of
                      None \<Rightarrow> ''undefined''
                    | Some c \<Rightarrow> c)
      in group_styles_from (i + 1) rest cs
           (m(gname \<mapsto> \<lparr>stroke_style = ''rgb('' @ scheme @ '')'',
                          fill_style = ''rgb('' @ scheme @ '')''\<rparr>)))"

definition set_group_styles :: "my_state \<Rightarrow> my_state" where
  "set_group_styles s =
     s\<lparr>my_group_styles :=
         group_styles_from 0 (viewer_groups (my_view_data s)) (my_color_scheme s) Map.empty\<rparr>"

record viewer_spec =
  spec_view_data :: view_data
  spec_color_scheme :: "(string \<times> string) list"

text \<open>
  The constructor. The fields it leaves unassigned until \<open>set_stim_index(0)\<close>, \<open>play\<close>
  or \<open>set_group_styles\<close> writes them are given placeholders here; none is read before
  it is written.
\<close>

definition gaze_viewer :: "viewer_spec \<Rightarrow> outcome" where
  "gaze_viewer sp =
     (let my = \<lparr>my_point_index = Num 0, my_playing = False,
                my_view_data = spec_view_data sp,
                my_playback_speed = Num 1, my_point_index_offset = Num 0,
                my_color_scheme = spec_color_scheme sp,
                my_play_started_at = 0, my_rendered_count = 0,
                my_stim_index = 0, my_stim_name = None, my_stim_data = None,
                my_gaze_len = 0, my_nav_array = [], my_group_styles = Map.empty,
                canvas = [], draw_calls = [], timeouts = 0, pp_button = [],
                nav_selected = None\<rparr>
      in case set_stim_index 0 (build_nav my) of
           Throws e s \<Rightarrow> Throws e s
         | Returns s \<Rightarrow> Returns (set_group_styles s))"

subsection \<open>What a frame shows\<close>

text \<open>
  The frames drawn by one call of \<open>draw_current_points\<close>, said directly: for each viewer
  in turn and each of its viewings in turn, a disc of radius 2 in the colours of the
  viewer's group where the viewing has a point at the index.
\<close>

definition present_points :: "js_number \<Rightarrow> view_array list \<Rightarrow> point list" where
  "present_points i view_arrays =
     concat (map (\<lambda>a. case js_at a i of Some (Some p) \<Rightarrow> [p] | _ \<Rightarrow> []) view_arrays)"

definition disc :: "group_style \<Rightarrow> point \<Rightarrow> shape" where
  "disc st p = \<lparr>cx = fst p, cy = snd p, rx = 2, ry = 2,
                fill = (if fill_style st = [] then ''#FFFFFF'' else fill_style st),
                stroke = (if stroke_style st = [] then ''#000000'' else stroke_style st),
                line_width = 0\<rparr>"

definition style_of :: "my_state \<Rightarrow> string \<Rightarrow> group_style option" where
  "style_of s viewer_name =
     (case viewer_data_of (my_view_data s) viewer_name of
        None \<Rightarrow> None
      | Some viewer_data \<Rightarrow> my_group_styles s (viewer_group viewer_data))"

definition viewer_discs ::
  "(string \<Rightarrow> group_style option) \<Rightarrow> js_number \<Rightarrow> stim_data \<Rightarrow> shape list" where
  "viewer_discs sty i entries =
     concat (map (\<lambda>(viewer_name, view_arrays).
                    case sty viewer_name of
                      None \<Rightarrow> []
                    | Some st \<Rightarrow> map (disc st) (present_points i view_arrays))
                 entries)"

definition frame_discs :: "my_state \<Rightarrow> shape list" where
  "frame_discs s = viewer_discs (style_of s) (my_point_index s) (for_in (my_stim_data s))"

text \<open>Every viewer with data for the stimulus is in the directory and its group has a style.\<close>

definition styles_resolve :: "my_state \<Rightarrow> bool" where
  "styles_resolve s =
     list_all (\<lambda>(viewer_name, view_arrays). style_of s viewer_name \<noteq> None)
       (for_in (my_stim_data s))"

definition all_view_arrays :: "my_state \<Rightarrow> view_array list" where
  "all_view_arrays s = concat (map snd (for_in (my_stim_data s)))"

subsection \<open>A small recording\<close>

definition pu_or :: "(string \<times> string) list" where
  "pu_or = [(''group_0'', ''241, 163, 64''), (''group_1'', ''152, 142, 195''),
            (''aoi'', ''166, 219, 160''), (''highlight'', ''179, 88, 6'')]"

definition demo_data :: view_data where
  "demo_data =
     \<lparr>stims = [''face'', ''house'', ''blank''],
      viewers = [\<lparr>viewer_group = ''adults''\<rparr>, \<lparr>viewer_group = ''children''\<rparr>],
      viewer_directory = [(''s01'', 0), (''s02'', 1)],
      viewer_groups = [''adults'', ''children''],
      viewdata =
        [(''face'', [(''s01'', [replicate 90 (Some (10, 20)), [Some (1, 2), None]]),
                     (''s02'', [[None, Some (3, 4), Some (5, 6)]])]),
         (''house'', [(''s01'', [[Some (7, 8), None, Some (9, 9)], [None, None]])])],
      samples_per_second = Num 30\<rparr>"

definition demo_styles :: "string \<rightharpoonup> group_style" where
  "demo_styles =
     [''adults'' \<mapsto> \<lparr>stroke_style = ''rgb(241, 163, 64)'', fill_style = ''rgb(241, 163, 64)''\<rparr>,
      ''children'' \<mapsto> \<lparr>stroke_style = ''rgb(152, 142, 195)'', fill_style = ''rgb(152, 142, 195)''\<rparr>]"

text \<open>The viewer that the constructor builds from the recording (see \<open>gaze_viewer_demo\<close>).\<close>

definition demo :: my_state where
  "demo =
     \<lparr>my_point_index = Num 0, my_playing = False, my_view_data = demo_data,
      my_playback_speed = Num 1, my_point_index_offset = Num 0, my_color_scheme = pu_or,
      my_play_started_at = 0, my_rendered_count = 0, my_stim_index = 0,
      my_stim_name = Some ''face'',
      my_stim_data = Some [(''s01'', [replicate 90 (Some (10, 20)), [Some (1, 2), None]]),
                           (''s02'', [[None, Some (3, 4), Some (5, 6)]])],
      my_gaze_len = 90, my_nav_array = [0, 1, 2], my_group_styles = demo_styles,
      canvas = [], draw_calls = [], timeouts = 0, pp_button = [],
      nav_selected = Some 0\<rparr>"

text \<open>
  Runs of the viewer on the recording: played from the start at clock reading 0;
  played again at 500 while playing; paused by a click at 1010 after the loop ran at
  1000, with the queued callback running at 1100, and resumed by a click at 2000; and
  resumed, with the queued callback running at 2050; and played with the speed control
  at 2 and set back to 1 after the loop ran at 1000.
\<close>

definition demo_playing :: outcome where
  "demo_playing = play True 0 0 demo"


definition demo_paused :: outcome where
  "demo_paused =
     and_then (and_then (and_then demo_playing (timeout_fires 1000))
       (handle_play_pause_click 1010 1010)) (timeout_fires 1100)"

definition demo_resumed :: outcome where
  "demo_resumed = and_then demo_paused (handle_play_pause_click 2000 2000)"



subsection \<open>Notions used in the statements and proofs\<close>

text \<open>The viewing has a point at the index: \<open>view_arrays[i][my.point_index]\<close> is truthy.\<close>

definition has_point :: "js_number \<Rightarrow> view_array \<Rightarrow> bool" where
  "has_point i a = (case js_at a i of Some (Some p) \<Rightarrow> True | _ \<Rightarrow> False)"

text \<open>The state in which one run of the frame loop draws its frame.\<close>

definition before_draw :: "int \<Rightarrow> my_state \<Rightarrow> my_state" where
  "before_draw now s =
     (if my_playing s \<and> \<not> js_ge (next_index_at now s) (js_int (my_gaze_len s))
      then s\<lparr>my_rendered_count := my_rendered_count s + 1, timeouts := timeouts s + 1\<rparr>
      else s\<lparr>my_rendered_count := my_rendered_count s + 1, my_playing := False,
             pp_button := ''Play'', my_point_index_offset := my_point_index s\<rparr>)"

text \<open>The index that one run of the frame loop stores.\<close>

definition stored_index :: "int \<Rightarrow> my_state \<Rightarrow> js_number" where
  "stored_index now s =
     (if js_ge (next_index_at now s) (js_int (my_gaze_len s)) then js_int (my_gaze_len s - 1)
      else next_index_at now s)"

text \<open>\<open>play\<close> starts over from index 0.\<close>

definition starts_over :: "bool \<Rightarrow> my_state \<Rightarrow> bool" where
  "starts_over from_start s \<longleftrightarrow>
     from_start \<or> js_ge (my_point_index s) (js_int (my_gaze_len s - 1))"

text \<open>The state in which \<open>play\<close> calls the frame loop.\<close>

definition at_play :: "bool \<Rightarrow> int \<Rightarrow> my_state \<Rightarrow> my_state" where
  "at_play from_start started s =
     (if starts_over from_start s
      then s\<lparr>my_play_started_at := started, my_rendered_count := 0, my_point_index := Num 0,
             my_point_index_offset := Num 0, my_playing := True\<rparr>
      else s\<lparr>my_play_started_at := started, my_rendered_count := 0, my_playing := True\<rparr>)"






section \<open>Properties\<close>

subsection \<open>Rounding to binary64\<close>

lemma binade_bounds:
  assumes "x \<noteq> 0"
  shows "2 powi binade x \<le> \<bar>x\<bar>" and "\<bar>x\<bar> < 2 powi (binade x + 1)"
proof -
  obtain p q where pq: "quotient_of \<bar>x\<bar> = (p, q)" by (cases "quotient_of \<bar>x\<bar>")
  have q: "0 < q" using pq by (rule quotient_of_denom_pos)
  have x: "\<bar>x\<bar> = of_int p / of_int q" using pq by (rule quotient_of_div)
  have p: "0 < p"
  proof (rule ccontr)
    assume "\<not> 0 < p"
    then have "of_int p / of_int q \<le> (0::rat)"
      using q by (simp add: divide_le_0_iff)
    with x assms show False by simp
  qed
  define bp where "bp = bitlen p"
  define bq where "bq = bitlen q"
  have bp: "1 \<le> bp" and bq: "1 \<le> bq"
    using p q bitlen_eq_zero_iff [of p] bitlen_eq_zero_iff [of q] bitlen_nonneg [of p]
      bitlen_nonneg [of q]
    by (auto simp: bp_def bq_def)
  have pw: "(2::rat) powi k = of_int (2 ^ nat k)" if "0 \<le> k" for k
    using that by (simp add: power_int_nonneg_exp)
  have p1: "2 powi (bp - 1) \<le> (of_int p :: rat)" and p2: "(of_int p :: rat) < 2 powi bp"
    using bitlen_bounds [OF p] bp unfolding bp_def [symmetric]
    by (simp_all only: pw of_int_le_iff of_int_less_iff)
  have q1: "2 powi (bq - 1) \<le> (of_int q :: rat)" and q2: "(of_int q :: rat) < 2 powi bq"
    using bitlen_bounds [OF q] bq unfolding bq_def [symmetric]
    by (simp_all only: pw of_int_le_iff of_int_less_iff)
  have "of_int p / of_int q < (2::rat) powi bp / 2 powi (bq - 1)"
    using p p2 q1 by (intro frac_less) simp_all
  also have "\<dots> = 2 powi (bp - bq + 1)"
    by (simp add: power_int_diff [symmetric] algebra_simps)
  finally have up: "\<bar>x\<bar> < 2 powi (bp - bq + 1)" by (simp only: x)
  have "(2::rat) powi (bp - 1) / 2 powi bq < of_int p / of_int q"
    using q p1 q2 by (intro frac_less2) simp_all
  moreover have "(2::rat) powi (bp - 1) / 2 powi bq = 2 powi (bp - bq - 1)"
    by (simp add: power_int_diff [symmetric] algebra_simps)
  ultimately have low: "2 powi (bp - bq - 1) < \<bar>x\<bar>" by (simp only: x)
  have b: "binade x = (if 2 powi (bp - bq) \<le> \<bar>x\<bar> then bp - bq else bp - bq - 1)"
    by (simp add: binade_def pq bp_def bq_def)
  show "2 powi binade x \<le> \<bar>x\<bar>"
    using low by (simp add: b)
  show "\<bar>x\<bar> < 2 powi (binade x + 1)"
    using up by (auto simp: b)
qed

lemma pow2_less_iff: "(2::rat) powi m < 2 powi n \<longleftrightarrow> m < n"
proof
  assume "m < n"
  then show "(2::rat) powi m < 2 powi n"
    by (intro power_int_strict_increasing) simp_all
next
  assume less: "(2::rat) powi m < 2 powi n"
  show "m < n"
  proof (rule ccontr)
    assume "\<not> m < n"
    then have "(2::rat) powi n \<le> 2 powi m"
      by (intro power_int_increasing) simp_all
    with less show False by simp
  qed
qed



lemma round_half_even_of_int [simp]: "round_half_even (of_int n) = n"
  by (simp add: round_half_even_def)


lemma round64_to_grid: "round64 x = to_grid (ulp_exponent x) x"
  by (simp add: round64_def)


lemma to_grid_of_int: "to_grid k (of_int n * 2 powi k) = of_int n * 2 powi k"
  by (simp add: to_grid_def)

lemma to_grid_0 [simp]: "to_grid k 0 = 0"
  using round_half_even_of_int [of 0] by (simp add: to_grid_def)


lemma round64_0 [simp]: "round64 0 = 0"
  by (simp add: round64_to_grid)







text \<open>Integers below \<open>2 ^ 53\<close> in magnitude are binary64 values.\<close>

lemma round64_of_int:
  assumes "\<bar>n\<bar> < 2 ^ 53"
  shows "round64 (of_int n) = of_int n"
proof (cases "n = 0")
  case True
  then show ?thesis by simp
next
  case False
  define x :: rat where "x = of_int n"
  have x: "x \<noteq> 0" using False by (simp add: x_def)
  have "2 powi binade x \<le> \<bar>x\<bar>" using x by (rule binade_bounds)
  also have "\<bar>x\<bar> < 2 powi 53"
  proof -
    have "(of_int \<bar>n\<bar> :: rat) < of_int (2 ^ 53)"
      using assms by (simp only: of_int_less_iff)
    then show ?thesis by (simp add: x_def)
  qed
  finally have "binade x < 53" by (simp only: pow2_less_iff)
  moreover have "(1::rat) \<le> \<bar>x\<bar>"
  proof -
    have "(of_int 1 :: rat) \<le> of_int \<bar>n\<bar>"
      using False by (simp only: of_int_le_iff)
    then show ?thesis by (simp add: x_def)
  qed
  then have "(2::rat) powi 0 < 2 powi (binade x + 1)"
    using binade_bounds(2) [OF x] by simp
  then have "0 \<le> binade x" by (simp only: pow2_less_iff)
  ultimately have k: "ulp_exponent x = binade x - 52" "binade x - 52 \<le> 0"
    by (simp_all add: ulp_exponent_def)
  define e where "e = binade x"
  define j where "j = nat (52 - e)"
  have "(2::rat) powi (e - 52) = inverse (2 powi (52 - e))"
    by (simp flip: power_int_minus)
  also have "(2::rat) powi (52 - e) = 2 ^ j"
    using k(2) by (simp add: j_def e_def power_int_nonneg_exp)
  finally have u: "(2::rat) powi (e - 52) = inverse (2 ^ j)" .
  have "x = of_int (n * 2 ^ j) * inverse ((2::rat) ^ j)"
    by (simp add: x_def)
  then have "x = of_int (n * 2 ^ j) * 2 powi (e - 52)"
    by (simp only: u)
  then have "to_grid (e - 52) x = x"
    by (metis to_grid_of_int)
  then have "round64 x = x"
    by (simp add: round64_to_grid k(1) e_def)
  then show ?thesis by (simp only: x_def)
qed

lemma fl_cases:
  obtains "fl x = PosInf" "2 powi 1024 \<le> round64 x"
  | "fl x = NegInf" "round64 x \<le> - (2 powi 1024)"
  | "fl x = Num (round64 x)" "- (2 powi 1024) < round64 x" "round64 x < 2 powi 1024"
proof (cases "2 powi 1024 \<le> round64 x")
  case True
  then have "fl x = PosInf" by (simp add: fl_def Let_def del: power_int_numeral)
  with True show ?thesis by (intro that(1))
next
  case False
  show ?thesis
  proof (cases "round64 x \<le> - (2 powi 1024)")
    case True
    with False have "fl x = NegInf" by (simp add: fl_def Let_def del: power_int_numeral)
    with True show ?thesis by (intro that(2))
  next
    case inside: False
    with False have "fl x = Num (round64 x)"
      by (simp add: fl_def Let_def del: power_int_numeral)
    with False inside show ?thesis by (intro that(3)) simp_all
  qed
qed

lemma fl_not_NaN [simp]: "fl x \<noteq> NaN"
  by (rule fl_cases [of x]) simp_all

text \<open>Whole numbers below \<open>2 ^ 53\<close> in magnitude are their own Numbers.\<close>

lemma fl_of_int:
  assumes "\<bar>n\<bar> < 2 ^ 53"
  shows "fl (of_int n) = Num (of_int n)"
proof -
  have "(of_int \<bar>n\<bar> :: rat) < of_int (2 ^ 53)"
    using assms by (simp only: of_int_less_iff)
  also have "(of_int (2 ^ 53) :: rat) \<le> 2 powi 1024"
    by simp
  finally have "\<bar>of_int n :: rat\<bar> < 2 powi 1024" by simp
  then show ?thesis
    by (simp add: fl_def round64_of_int [OF assms] abs_less_iff del: power_int_numeral)
qed

lemma fl_numeral [simp]:
  "(numeral k :: int) < 2 ^ 53 \<Longrightarrow> fl (numeral k) = Num (numeral k)"
  "(numeral k :: int) < 2 ^ 53 \<Longrightarrow> fl (- numeral k) = Num (- numeral k)"
  "fl 0 = Num 0" "fl 1 = Num 1" "fl (- 1) = Num (- 1)"
  using fl_of_int [of "numeral k"] fl_of_int [of "- numeral k"] fl_of_int [of 0]
    fl_of_int [of 1] fl_of_int [of "- 1"]
  by simp_all

subsection \<open>Frame conditions of drawing\<close>

lemma draw_view_arrays_Returns:
  "draw_view_arrays vas (Some st) s =
     Returns (s\<lparr>canvas := canvas s @ map (disc st) (present_points (my_point_index s) vas)\<rparr>)"
proof (induction vas arbitrary: s)
  case Nil
  show ?case by (simp add: present_points_def)
next
  case (Cons a vas)
  show ?case
  proof (cases "js_at a (my_point_index s)")
    case None
    then show ?thesis using Cons.IH [of s] by (simp add: present_points_def)
  next
    case (Some q)
    show ?thesis
    proof (cases q)
      case None
      with Some show ?thesis using Cons.IH [of s] by (simp add: present_points_def)
    next
      case (Some p)
      with \<open>js_at a (my_point_index s) = Some q\<close> show ?thesis
        by (simp add: Cons.IH present_points_def circle_def ellipse_def disc_def)
    qed
  qed
qed

lemma style_of_cong:
  "my_view_data s' = my_view_data s \<Longrightarrow> my_group_styles s' = my_group_styles s \<Longrightarrow>
   style_of s' = style_of s"
  by (rule ext) (simp add: style_of_def split: option.splits)

lemma styles_resolve_cong:
  "my_view_data s' = my_view_data s \<Longrightarrow> my_stim_data s' = my_stim_data s \<Longrightarrow>
   my_group_styles s' = my_group_styles s \<Longrightarrow> styles_resolve s' = styles_resolve s"
  by (simp add: styles_resolve_def style_of_cong [of s' s])

lemma frame_discs_cong:
  "my_view_data s' = my_view_data s \<Longrightarrow> my_stim_data s' = my_stim_data s \<Longrightarrow>
   my_group_styles s' = my_group_styles s \<Longrightarrow> my_point_index s' = my_point_index s \<Longrightarrow>
   frame_discs s' = frame_discs s"
  by (simp add: frame_discs_def style_of_cong [of s' s])

lemma styles_resolve_update [simp]:
  "styles_resolve (s\<lparr>my_point_index := i\<rparr>) = styles_resolve s"
  "styles_resolve (s\<lparr>my_point_index_offset := i\<rparr>) = styles_resolve s"
  "styles_resolve (s\<lparr>my_playing := b\<rparr>) = styles_resolve s"
  "styles_resolve (s\<lparr>my_playback_speed := v\<rparr>) = styles_resolve s"
  "styles_resolve (s\<lparr>my_play_started_at := t\<rparr>) = styles_resolve s"
  "styles_resolve (s\<lparr>my_rendered_count := k\<rparr>) = styles_resolve s"
  "styles_resolve (s\<lparr>canvas := c\<rparr>) = styles_resolve s"
  "styles_resolve (s\<lparr>draw_calls := d\<rparr>) = styles_resolve s"
  "styles_resolve (s\<lparr>timeouts := m\<rparr>) = styles_resolve s"
  "styles_resolve (s\<lparr>pp_button := l\<rparr>) = styles_resolve s"
  by (rule styles_resolve_cong; simp)+

lemma draw_viewers_Returns:
  "list_all (\<lambda>(n, vas). style_of s n \<noteq> None) vs \<Longrightarrow>
   draw_viewers vs s =
     Returns (s\<lparr>canvas := canvas s @ viewer_discs (style_of s) (my_point_index s) vs\<rparr>)"
proof (induction vs arbitrary: s)
  case Nil
  show ?case by (simp add: viewer_discs_def)
next
  case (Cons x vs)
  obtain n vas where x: "x = (n, vas)" by (cases x)
  from Cons.prems x obtain st where st: "style_of s n = Some st" by auto
  then obtain vd where vd: "viewer_data_of (my_view_data s) n = Some vd"
    and gs: "my_group_styles s (viewer_group vd) = Some st"
    by (auto simp: style_of_def split: option.splits)
  define s1 where
    "s1 = s\<lparr>canvas := canvas s @ map (disc st) (present_points (my_point_index s) vas)\<rparr>"
  have same: "style_of s1 = style_of s"
    by (rule style_of_cong) (simp_all add: s1_def)
  have pi: "my_point_index s1 = my_point_index s" and cv: "canvas s1 =
      canvas s @ map (disc st) (present_points (my_point_index s) vas)"
    by (simp_all add: s1_def)
  have "list_all (\<lambda>(n, vas). style_of s1 n \<noteq> None) vs"
    using Cons.prems by (simp add: same)
  from Cons.IH [OF this]
  have rest: "draw_viewers vs s1 =
      Returns (s1\<lparr>canvas := canvas s @ map (disc st) (present_points (my_point_index s) vas) @
        viewer_discs (style_of s) (my_point_index s) vs\<rparr>)"
    by (simp add: same pi cv)
  have "draw_viewers (x # vs) s = draw_viewers vs s1"
    by (simp add: x vd gs draw_view_arrays_Returns s1_def)
  with rest show ?case by (simp add: x st viewer_discs_def s1_def)
qed

lemma draw_current_points_Returns:
  assumes "styles_resolve s"
  shows "draw_current_points s =
     Returns (s\<lparr>canvas := canvas s @ frame_discs s,
               draw_calls := draw_calls s @ [my_point_index s]\<rparr>)"
proof -
  define s0 where "s0 = s\<lparr>draw_calls := draw_calls s @ [my_point_index s]\<rparr>"
  have same: "style_of s0 = style_of s"
    by (rule style_of_cong) (simp_all add: s0_def)
  have pi: "my_point_index s0 = my_point_index s" and cv: "canvas s0 = canvas s"
    by (simp_all add: s0_def)
  have "list_all (\<lambda>(n, vas). style_of s0 n \<noteq> None) (for_in (my_stim_data s))"
    using assms by (simp add: styles_resolve_def same)
  from draw_viewers_Returns [OF this]
  have "draw_current_points s =
      Returns (s0\<lparr>canvas := canvas s @ frame_discs s\<rparr>)"
    by (simp add: draw_current_points_def frame_discs_def same pi cv flip: s0_def)
  then show ?thesis by (simp add: s0_def)
qed

lemma draw_current_frame_Returns:
  assumes "styles_resolve s"
  shows "draw_current_frame s =
     Returns (s\<lparr>canvas := frame_discs s, draw_calls := draw_calls s @ [my_point_index s]\<rparr>)"
proof -
  have r: "styles_resolve (clear s)"
    using assms styles_resolve_cong [of "clear s" s] by (simp add: clear_def)
  have f: "frame_discs (clear s) = frame_discs s"
    by (rule frame_discs_cong) (simp_all add: clear_def)
  show ?thesis
    unfolding draw_current_frame_def draw_current_points_Returns [OF r] f
    by (simp add: clear_def)
qed

lemma next_index_at_cong:
  "my_point_index_offset s' = my_point_index_offset s \<Longrightarrow>
   my_play_started_at s' = my_play_started_at s \<Longrightarrow>
   my_playback_speed s' = my_playback_speed s \<Longrightarrow>
   my_view_data s' = my_view_data s \<Longrightarrow>
   next_index_at now s' = next_index_at now s"
  by (simp add: next_index_at_def elapsed_ms_def)

lemma render_and_schedule_Returns:
  assumes "styles_resolve s"
  shows "render_and_schedule now s =
     Returns ((before_draw now s)
       \<lparr>canvas := frame_discs s, draw_calls := draw_calls s @ [my_point_index s],
        my_point_index := stored_index now s\<rparr>)"
proof -
  have r: "styles_resolve (before_draw now s)"
    using assms styles_resolve_cong [of "before_draw now s" s] by (simp add: before_draw_def)
  have f: "frame_discs (before_draw now s) = frame_discs s"
    by (rule frame_discs_cong) (simp_all add: before_draw_def)
  have n: "next_index_at now (s\<lparr>my_rendered_count := k\<rparr>) = next_index_at now s" for k
    by (rule next_index_at_cong) simp_all
  have d: "draw_current_frame (before_draw now s) =
     Returns ((before_draw now s)
       \<lparr>canvas := frame_discs s, draw_calls := draw_calls s @ [my_point_index s]\<rparr>)"
    unfolding draw_current_frame_Returns [OF r] f by (simp add: before_draw_def)
  have "render_and_schedule now s =
     (case draw_current_frame (before_draw now s) of
        Throws e s' \<Rightarrow> Throws e s'
      | Returns s' \<Rightarrow> Returns (s'\<lparr>my_point_index := stored_index now s\<rparr>))"
  proof (cases "my_playing s \<and> \<not> js_ge (next_index_at now s) (js_int (my_gaze_len s))")
    case True
    then show ?thesis
      by (simp add: render_and_schedule_def Let_def n before_draw_def stored_index_def
               cong: outcome.case_cong)
  next
    case False
    have stopped: "\<not> my_playing s \<Longrightarrow> s\<lparr>my_playing := False\<rparr> = s"
      by (cases s) simp
    show ?thesis
    proof (cases "js_ge (next_index_at now s) (js_int (my_gaze_len s))")
      case True
      then show ?thesis
        by (simp add: render_and_schedule_def Let_def n before_draw_def set_play_pause_def
                 stored_index_def cong: outcome.case_cong)
    next
      case open_end: False
      with False have np: "\<not> my_playing s" by simp
      have "before_draw now s =
          (s\<lparr>my_playing := False\<rparr>)\<lparr>my_rendered_count := my_rendered_count s + 1,
             pp_button := ''Play'', my_point_index_offset := my_point_index s\<rparr>"
        using open_end np by (simp add: before_draw_def)
      then have b: "before_draw now s =
          s\<lparr>my_rendered_count := my_rendered_count s + 1,
            pp_button := ''Play'', my_point_index_offset := my_point_index s\<rparr>"
        by (simp only: stopped [OF np])
      show ?thesis
        unfolding b using open_end np
        by (simp add: render_and_schedule_def Let_def n set_play_pause_def stored_index_def
                 cong: outcome.case_cong)
    qed
  qed
  then show ?thesis by (simp add: d)
qed



lemma play_at_play: "play from_start started now s = render_and_schedule now (at_play from_start started s)"
  by (simp add: play_def at_play_def starts_over_def Let_def)

lemma styles_resolve_at_play: "styles_resolve (at_play from_start started s) = styles_resolve s"
  by (rule styles_resolve_cong) (simp_all add: at_play_def)

lemma demo_fields:
  "my_point_index demo = Num 0" "my_point_index_offset demo = Num 0" "my_gaze_len demo = 90"
  "draw_calls demo = []" "timeouts demo = 0" "my_playback_speed demo = Num 1"
  "samples_per_second (my_view_data demo) = Num 30" "\<not> my_playing demo"
  "my_stim_index demo = 0" "my_nav_array demo = [0, 1, 2]" "my_play_started_at demo = 0"
  "stims (my_view_data demo) = [''face'', ''house'', ''blank'']"
  by (simp_all add: demo_def demo_data_def)

lemma demo_styles_resolve: "styles_resolve demo"
  by (simp add: styles_resolve_def demo_def for_in_def style_of_def viewer_data_of_def
        demo_data_def js_index_def demo_styles_def)

subsection \<open>Session length\<close>

lemma gaze_len_arrays_fold:
  "gaze_len_arrays vas mx = fold max (map (\<lambda>a. int (length a)) vas) mx"
  by (induction vas arbitrary: mx) (simp_all add: max_def)

lemma gaze_len_viewers_fold:
  "gaze_len_viewers entries mx =
     fold max (map (\<lambda>a. int (length a)) (concat (map snd entries))) mx"
proof (induction entries arbitrary: mx)
  case Nil
  show ?case by simp
next
  case (Cons x entries)
  obtain n vas where x: "x = (n, vas)" by (cases x)
  show ?case by (simp add: x Cons.IH gaze_len_arrays_fold)
qed

lemma gaze_len_Max:
  "gaze_len s = Max (set (0 # map (\<lambda>a. int (length a)) (all_view_arrays s)))"
  by (simp only: gaze_len_def gaze_len_viewers_fold all_view_arrays_def Max.set_eq_fold)

lemma gaze_len_ge: "a \<in> set (all_view_arrays s) \<Longrightarrow> int (length a) \<le> gaze_len s"
  unfolding gaze_len_Max by (rule Max_ge) auto

lemma gaze_len_empty:
  assumes "\<forall>a \<in> set (all_view_arrays s). a = []"
  shows "gaze_len s = 0"
proof -
  have "set (0 # map (\<lambda>a. int (length a)) (all_view_arrays s)) = {0}"
    using assms by auto
  then show ?thesis by (simp only: gaze_len_Max Max_singleton)
qed

text \<open>
  Claim C8. For every valid stimulus index, selecting the stimulus succeeds and leaves
  the session length equal to the greatest length among the point arrays that the
  viewers have for that stimulus, and to 0 when no viewer has any point for it.
\<close>

theorem C8_session_length:
  assumes "0 \<le> idx" and "idx < int (length (stims (my_view_data s)))"
    and "length (my_nav_array s) = length (stims (my_view_data s))"
  shows "\<exists>s'. set_stim_index idx s = Returns s' \<and>
           my_stim_data s' =
             map_of (viewdata (my_view_data s)) (stims (my_view_data s) ! nat idx) \<and>
           my_gaze_len s' = Max (set (0 # map (\<lambda>a. int (length a)) (all_view_arrays s'))) \<and>
           gaze_len s' = my_gaze_len s' \<and>
           ((\<forall>a \<in> set (all_view_arrays s'). a = []) \<longrightarrow> my_gaze_len s' = 0)"
proof -
  define sd where
    "sd = map_of (viewdata (my_view_data s)) (stims (my_view_data s) ! nat idx)"
  define s6 where
    "s6 = s\<lparr>my_stim_index := idx, nav_selected := Some (my_nav_array s ! nat idx),
             my_stim_name := Some (stims (my_view_data s) ! nat idx), canvas := [],
             my_stim_data := sd, my_point_index := Num 0, my_point_index_offset := Num 0\<rparr>"
  define s' where "s' = s6\<lparr>my_gaze_len := gaze_len s6\<rparr>"
  have run: "set_stim_index idx s = Returns s'"
    using assms
    by (simp add: set_stim_index_def js_index_def Let_def select_nav_element_def clear_def
          s'_def s6_def sd_def)
  have data: "my_stim_data s' = sd"
    by (simp add: s'_def s6_def)
  have same: "gaze_len s' = gaze_len s6" "all_view_arrays s' = all_view_arrays s6"
    by (simp_all add: gaze_len_def all_view_arrays_def s'_def)
  have len: "my_gaze_len s' = gaze_len s'"
    by (simp add: same) (simp add: s'_def)
  show ?thesis
    using run data len gaze_len_Max [of s'] gaze_len_empty [of s']
    by (simp add: sd_def)
qed

lemma demo_other_stimuli:
  "map_of (viewdata (my_view_data demo)) (stims (my_view_data demo) ! nat 1) =
     Some [(''s01'', [[Some (7, 8), None, Some (9, 9)], [None, None]])]"
  "map_of (viewdata (my_view_data demo)) (stims (my_view_data demo) ! nat 2) = None"
  by (simp_all add: demo_def demo_data_def)

theorem C8_session_length_witness:
  "(\<exists>s'. set_stim_index 1 demo = Returns s' \<and>
      my_stim_data s' = Some [(''s01'', [[Some (7, 8), None, Some (9, 9)], [None, None]])] \<and>
      my_gaze_len s' = 3) \<and>
   (\<exists>s'. set_stim_index 2 demo = Returns s' \<and> my_stim_data s' = None \<and>
      (\<forall>a \<in> set (all_view_arrays s'). a = []) \<and> my_gaze_len s' = 0)"
proof
  have "(0::int) \<le> 1" and "1 < int (length (stims (my_view_data demo)))"
    and "length (my_nav_array demo) = length (stims (my_view_data demo))"
    by (simp_all add: demo_fields)
  from C8_session_length [OF this] obtain s' where
    run: "set_stim_index 1 demo = Returns s'"
    and data: "my_stim_data s' =
        map_of (viewdata (my_view_data demo)) (stims (my_view_data demo) ! nat 1)"
    and len: "my_gaze_len s' = Max (set (0 # map (\<lambda>a. int (length a)) (all_view_arrays s')))"
    by blast
  from data have d: "my_stim_data s' =
      Some [(''s01'', [[Some (7, 8), None, Some (9, 9)], [None, None]])]"
    by (simp only: demo_other_stimuli)
  have "my_gaze_len s' = 3"
    unfolding len by (simp add: all_view_arrays_def d for_in_def)
  with run d show "\<exists>s'. set_stim_index 1 demo = Returns s' \<and>
      my_stim_data s' = Some [(''s01'', [[Some (7, 8), None, Some (9, 9)], [None, None]])] \<and>
      my_gaze_len s' = 3"
    by blast
next
  have "(0::int) \<le> 2" and "2 < int (length (stims (my_view_data demo)))"
    and "length (my_nav_array demo) = length (stims (my_view_data demo))"
    by (simp_all add: demo_fields)
  from C8_session_length [OF this] obtain s' where
    run: "set_stim_index 2 demo = Returns s'"
    and data: "my_stim_data s' =
        map_of (viewdata (my_view_data demo)) (stims (my_view_data demo) ! nat 2)"
    and none: "(\<forall>a \<in> set (all_view_arrays s'). a = []) \<longrightarrow> my_gaze_len s' = 0"
    by blast
  from data have d: "my_stim_data s' = None"
    by (simp only: demo_other_stimuli)
  then have e: "\<forall>a \<in> set (all_view_arrays s'). a = []"
    by (simp add: all_view_arrays_def for_in_def)
  with none have "my_gaze_len s' = 0" by simp
  with run d e show "\<exists>s'. set_stim_index 2 demo = Returns s' \<and> my_stim_data s' = None \<and>
      (\<forall>a \<in> set (all_view_arrays s'). a = []) \<and> my_gaze_len s' = 0"
    by blast
qed

lemma gaze_viewer_demo:
  "gaze_viewer \<lparr>spec_view_data = demo_data, spec_color_scheme = pu_or\<rparr> = Returns demo"
  by (simp add: gaze_viewer_def build_nav_def set_stim_index_def js_index_def Let_def
        select_nav_element_def clear_def gaze_len_def for_in_def set_group_styles_def
        demo_def demo_data_def demo_styles_def pu_or_def upt_rec)

text \<open>Every viewer that the constructor yields has one navigation entry per stimulus.\<close>

lemma gaze_viewer_nav_array:
  assumes "gaze_viewer sp = Returns s"
  shows "length (my_nav_array s) = length (stims (my_view_data s))"
  using assms
  by (auto simp: gaze_viewer_def build_nav_def set_stim_index_def Let_def
        select_nav_element_def clear_def set_group_styles_def
        split: option.splits)

subsection \<open>Viewings\<close>

lemma length_present_points:
  "length (present_points i vas) = length (filter (has_point i) vas)"
  by (induction vas) (auto simp: present_points_def has_point_def split: option.splits)

lemma length_viewer_discs:
  "list_all (\<lambda>(n, vas). sty n \<noteq> None) entries \<Longrightarrow>
   length (viewer_discs sty i entries) =
     length (filter (has_point i) (concat (map snd entries)))"
proof (induction entries)
  case Nil
  show ?case by (simp add: viewer_discs_def)
next
  case (Cons x entries)
  obtain n vas where x: "x = (n, vas)" by (cases x)
  from Cons.prems x obtain st where st: "sty n = Some st" by auto
  from Cons show ?case
    by (simp add: viewer_discs_def x st length_present_points)
qed

lemma present_points_outside:
  assumes "\<forall>a \<in> set vas. js_at a i = None"
  shows "present_points i vas = []"
  using assms by (induction vas) (simp_all add: present_points_def)

lemma viewer_discs_outside:
  assumes "\<forall>a \<in> set (concat (map snd entries)). js_at a i = None"
  shows "viewer_discs sty i entries = []"
proof -
  have "present_points i vas = []" if "(n, vas) \<in> set entries" for n vas
    using that assms by (intro present_points_outside) force
  then show ?thesis
    by (auto simp: viewer_discs_def split: option.splits)
qed

lemma js_at_js_int [simp]: "js_at xs (js_int i) = js_index xs i"
  by (simp add: js_at_def js_int_def)

lemma js_at_Some:
  assumes "js_at xs x = Some y"
  shows "\<exists>i. 0 \<le> i \<and> i < int (length xs) \<and> x = js_int i"
proof (cases x)
  case (Num r)
  with assms have whole: "r = of_int \<lfloor>r\<rfloor>" and "js_index xs \<lfloor>r\<rfloor> = Some y"
    by (auto simp: js_at_def split: if_splits)
  then have "0 \<le> \<lfloor>r\<rfloor>" "\<lfloor>r\<rfloor> < int (length xs)"
    by (auto simp: js_index_def split: if_splits)
  moreover have "x = js_int \<lfloor>r\<rfloor>"
    using whole Num by (simp add: js_int_def)
  ultimately show ?thesis by blast
qed (use assms in \<open>simp_all add: js_at_def\<close>)

lemma frame_discs_outside:
  assumes "\<forall>i. 0 \<le> i \<and> i < gaze_len s \<longrightarrow> my_point_index s \<noteq> js_int i"
  shows "frame_discs s = []"
proof -
  have "js_at a (my_point_index s) = None" if a: "a \<in> set (all_view_arrays s)" for a
  proof (rule ccontr)
    assume "js_at a (my_point_index s) \<noteq> None"
    then obtain y where "js_at a (my_point_index s) = Some y" by auto
    from js_at_Some [OF this] obtain i where
      "0 \<le> i" "i < int (length a)" "my_point_index s = js_int i" by blast
    with gaze_len_ge [OF a] assms show False by force
  qed
  then show ?thesis
    unfolding frame_discs_def
    by (intro viewer_discs_outside) (simp add: all_view_arrays_def)
qed

text \<open>
  Claim C10. What a viewer has for a stimulus is a sequence of viewing arrays. Drawing
  the points of the current index returns normally and paints, viewer by viewer and
  viewing by viewing, one disc for each viewing that has a point at the index: as many
  discs as there are such viewings among all viewings of all viewers, none at all when
  the index is not a whole number from 0 to below the session length (negative, at or
  past the session length, or not a finite number). The session length is the greatest
  length among all viewings of all viewers.
\<close>

theorem C10_viewings:
  assumes "styles_resolve s"
  shows "draw_current_points s =
           Returns (s\<lparr>canvas := canvas s @ frame_discs s,
                     draw_calls := draw_calls s @ [my_point_index s]\<rparr>) \<and>
         length (frame_discs s) =
           length (filter (has_point (my_point_index s)) (all_view_arrays s)) \<and>
         ((\<forall>i. 0 \<le> i \<and> i < gaze_len s \<longrightarrow> my_point_index s \<noteq> js_int i) \<longrightarrow>
            frame_discs s = []) \<and>
         gaze_len s = Max (set (0 # map (\<lambda>a. int (length a)) (all_view_arrays s)))"
proof (intro conjI impI)
  show "draw_current_points s =
           Returns (s\<lparr>canvas := canvas s @ frame_discs s,
                     draw_calls := draw_calls s @ [my_point_index s]\<rparr>)"
    by (rule draw_current_points_Returns [OF assms])
  show "length (frame_discs s) =
           length (filter (has_point (my_point_index s)) (all_view_arrays s))"
    using assms
    by (simp add: frame_discs_def all_view_arrays_def styles_resolve_def length_viewer_discs)
  show "frame_discs s = []"
    if "\<forall>i. 0 \<le> i \<and> i < gaze_len s \<longrightarrow> my_point_index s \<noteq> js_int i"
    using that by (rule frame_discs_outside)
  show "gaze_len s = Max (set (0 # map (\<lambda>a. int (length a)) (all_view_arrays s)))"
    by (rule gaze_len_Max)
qed

lemma frame_discs_demo:
  "frame_discs demo =
     [\<lparr>cx = 10, cy = 20, rx = 2, ry = 2, fill = ''rgb(241, 163, 64)'',
       stroke = ''rgb(241, 163, 64)'', line_width = 0\<rparr>,
      \<lparr>cx = 1, cy = 2, rx = 2, ry = 2, fill = ''rgb(241, 163, 64)'',
       stroke = ''rgb(241, 163, 64)'', line_width = 0\<rparr>]"
  by (simp add: frame_discs_def viewer_discs_def style_of_def viewer_data_of_def
        present_points_def js_at_def js_index_def disc_def for_in_def
        demo_def demo_data_def demo_styles_def)

theorem C10_viewings_witness:
  "styles_resolve demo \<and>
   (\<exists>s'. draw_current_points demo = Returns s' \<and>
      canvas s' =
        [\<lparr>cx = 10, cy = 20, rx = 2, ry = 2, fill = ''rgb(241, 163, 64)'',
          stroke = ''rgb(241, 163, 64)'', line_width = 0\<rparr>,
         \<lparr>cx = 1, cy = 2, rx = 2, ry = 2, fill = ''rgb(241, 163, 64)'',
          stroke = ''rgb(241, 163, 64)'', line_width = 0\<rparr>]) \<and>
   length (filter (has_point (my_point_index demo)) (all_view_arrays demo)) = 2 \<and>
   frame_discs (demo\<lparr>my_point_index := js_int 90\<rparr>) = [] \<and>
   gaze_len demo = 90"
proof -
  have out: "styles_resolve (demo\<lparr>my_point_index := js_int 90\<rparr>)"
    using demo_styles_resolve by simp
  have len: "gaze_len demo = 90" "gaze_len (demo\<lparr>my_point_index := js_int 90\<rparr>) = 90"
    by (simp_all add: gaze_len_def for_in_def demo_def)
  have past: "\<forall>i. 0 \<le> i \<and> i < gaze_len (demo\<lparr>my_point_index := js_int 90\<rparr>) \<longrightarrow>
      my_point_index (demo\<lparr>my_point_index := js_int 90\<rparr>) \<noteq> js_int i"
    using len by (auto simp: js_int_def)
  from C10_viewings [OF demo_styles_resolve] C10_viewings [OF out] demo_styles_resolve past
  show ?thesis
    by (simp add: frame_discs_demo len) (simp add: demo_def)
qed

subsection \<open>Drawing every frame\<close>

lemma overdraw_from_Returns:
  "styles_resolve s \<Longrightarrow>
   \<exists>s'. overdraw_from i s = Returns s' \<and>
        draw_calls s' = draw_calls s @ map js_int [i..my_gaze_len s - 1] \<and>
        my_point_index_offset s' = my_point_index_offset s \<and>
        my_point_index s' =
          (if i < my_gaze_len s then js_int (my_gaze_len s - 1) else my_point_index s)"
proof (induction i s rule: overdraw_from.induct)
  case (1 i s)
  show ?case
  proof (cases "i < my_gaze_len s")
    case False
    then have "overdraw_from i s = Returns s"
      by (subst overdraw_from.simps) simp
    with False show ?thesis by simp
  next
    case True
    define t where "t = s\<lparr>my_point_index := js_int i\<rparr>"
    have rt: "styles_resolve t"
      using "1.prems" by (simp add: t_def)
    define s1 where
      "s1 = t\<lparr>canvas := canvas t @ frame_discs t,
               draw_calls := draw_calls t @ [my_point_index t]\<rparr>"
    have d: "draw_current_points (s\<lparr>my_point_index := js_int i\<rparr>) = Returns s1"
      unfolding s1_def t_def [symmetric] by (rule draw_current_points_Returns [OF rt])
    have r1: "styles_resolve s1"
      using rt by (simp add: s1_def)
    from "1.IH" [OF True d r1] obtain s' where
      run: "overdraw_from (i + 1) s1 = Returns s'"
      and calls: "draw_calls s' = draw_calls s1 @ map js_int [i + 1..my_gaze_len s1 - 1]"
      and off: "my_point_index_offset s' = my_point_index_offset s1"
      and idx: "my_point_index s' =
          (if i + 1 < my_gaze_len s1 then js_int (my_gaze_len s1 - 1) else my_point_index s1)"
      by blast
    have fields: "my_gaze_len s1 = my_gaze_len s" "my_point_index s1 = js_int i"
      "my_point_index_offset s1 = my_point_index_offset s"
      "draw_calls s1 = draw_calls s @ [js_int i]"
      by (simp_all add: s1_def t_def)
    have "overdraw_from i s = overdraw_from (i + 1) s1"
      using True by (subst overdraw_from.simps) (simp add: d)
    moreover have "[i..my_gaze_len s - 1] = i # [i + 1..my_gaze_len s - 1]"
      using True by (simp add: upto_rec1)
    moreover have "my_point_index s' = js_int (my_gaze_len s - 1)"
    proof (cases "i + 1 < my_gaze_len s")
      case True
      with idx show ?thesis by (simp add: fields)
    next
      case False
      with True have "i = my_gaze_len s - 1" by simp
      with False idx show ?thesis by (simp add: fields)
    qed
    ultimately show ?thesis
      using True run calls off by (simp add: fields)
  qed
qed

lemma overdraw_all_frames_Returns:
  assumes "styles_resolve s"
  shows "\<exists>s'. overdraw_all_frames s = Returns s' \<and>
        draw_calls s' = draw_calls s @ map js_int [0..my_gaze_len s - 1] \<and>
        my_point_index_offset s' = my_point_index_offset s \<and>
        my_point_index s' = (if 0 < my_gaze_len s then js_int (my_gaze_len s - 1) else my_point_index s)"
proof -
  have "styles_resolve (clear s)"
    using assms styles_resolve_cong [of "clear s" s] by (simp add: clear_def)
  from overdraw_from_Returns [OF this, of 0] obtain s' where
    "overdraw_from 0 (clear s) = Returns s'"
    and "draw_calls s' = draw_calls (clear s) @ map js_int [0..my_gaze_len (clear s) - 1]"
    and "my_point_index_offset s' = my_point_index_offset (clear s)"
    and "my_point_index s' =
        (if 0 < my_gaze_len (clear s) then js_int (my_gaze_len (clear s) - 1)
         else my_point_index (clear s))"
    by blast
  moreover have "draw_calls (clear s) = draw_calls s" "my_gaze_len (clear s) = my_gaze_len s"
    "my_point_index_offset (clear s) = my_point_index_offset s"
    "my_point_index (clear s) = my_point_index s"
    by (simp_all add: clear_def)
  ultimately show ?thesis
    by (simp add: overdraw_all_frames_def del: overdraw_from.simps)
qed


text \<open>
  Claim C9 as stated fails: the loop of \<open>overdraw_all_frames\<close> uses \<open>my.point_index\<close>
  as its counter. On the recording of 90 samples the current index is 0 before the call
  and 89 after it.
\<close>

theorem C9_current_index_counterexample:
  "my_point_index demo = Num 0 \<and> returns (overdraw_all_frames demo) \<and>
   my_point_index (state_of (overdraw_all_frames demo)) = Num 89"
  using overdraw_all_frames_Returns [OF demo_styles_resolve]
  by (auto simp: demo_fields returns_def state_of_def js_int_def)

text \<open>
  Claim C9, amended. \<open>overdraw_all_frames\<close> draws the points of every sample index
  from 0 to the session length minus 1, in order, with exactly as many drawing calls as
  the session is long. It never changes the index offset, and it leaves the current
  index at the last sample, or unchanged when the session is empty.
\<close>

theorem C9_overdraw_all_frames:
  assumes "styles_resolve s"
  shows "\<exists>s'. overdraw_all_frames s = Returns s' \<and>
        draw_calls s' = draw_calls s @ map js_int [0..my_gaze_len s - 1] \<and>
        length (draw_calls s') = length (draw_calls s) + nat (my_gaze_len s) \<and>
        my_point_index_offset s' = my_point_index_offset s \<and>
        my_point_index s' = (if 0 < my_gaze_len s then js_int (my_gaze_len s - 1) else my_point_index s)"
proof -
  from overdraw_all_frames_Returns [OF assms] obtain s' where
    run: "overdraw_all_frames s = Returns s'"
    and calls: "draw_calls s' = draw_calls s @ map js_int [0..my_gaze_len s - 1]"
    and rest: "my_point_index_offset s' = my_point_index_offset s"
      "my_point_index s' = (if 0 < my_gaze_len s then js_int (my_gaze_len s - 1) else my_point_index s)"
    by blast
  have "length (draw_calls s') = length (draw_calls s) + nat (my_gaze_len s)"
    by (simp add: calls)
  with run calls rest show ?thesis by blast
qed

theorem C9_overdraw_all_frames_witness:
  "styles_resolve demo \<and>
   (\<exists>s'. overdraw_all_frames demo = Returns s' \<and>
        draw_calls s' = map js_int [0..89] \<and> length (draw_calls s') = 90 \<and>
        my_point_index_offset s' = Num 0 \<and> my_point_index s' = Num 89)"
  using C9_overdraw_all_frames [OF demo_styles_resolve] demo_styles_resolve
  by (auto simp: demo_fields js_int_def)

subsection \<open>Pausing\<close>

text \<open>
  Claim C3 at a playing viewer: the public \<open>pause\<close> has an empty body, so the viewer
  started by \<open>play(true)\<close> is still playing after \<open>pause()\<close>, with its callback still
  queued.
\<close>

theorem C3_pause_does_nothing:
  "returns demo_playing \<and> my_playing (state_of demo_playing) \<and>
   timeouts (state_of demo_playing) = 1 \<and>
   pause (state_of demo_playing) = state_of demo_playing \<and>
   my_playing (pause (state_of demo_playing))"
  by (simp add: pause_def play_at_play at_play_def starts_over_def render_and_schedule_Returns
        before_draw_def next_index_at_def elapsed_ms_def js_int_def demo_styles_resolve
        demo_fields returns_def state_of_def demo_playing_def)

lemmas parseFloat_defs =
  parseFloat_def is_white_space_def is_digit_def digit_value_def exponent_part_def

lemmas run =
  play_at_play at_play_def starts_over_def timeout_fires_def render_and_schedule_Returns
  before_draw_def stored_index_def next_index_at_def elapsed_ms_def js_int_def
  demo_styles_resolve demo_fields handle_play_pause_click_def set_play_pause_def
  handle_speed_change_def parseFloat_defs and_then_def returns_def state_of_def

text \<open>
  The index is computed in binary64, not exactly: at speed 0.7 and 50 samples per
  second, 1400 ms give index 48, where the exact product is 49.
\<close>

lemma rounded_steps:
  "round64 (7 / 10) = 3152519739159347 / 4503599627370496"
  "round64 (1400 * (3152519739159347 / 4503599627370496)) = 8620171161763839 / 8796093022208"
  "round64 (8620171161763839 / 8796093022208 * 50) = 6734508720127999 / 137438953472"
  "round64 (6734508720127999 / 137438953472 / 1000) = 6896136929411071 / 140737488355328"
  by code_simp+

lemma index_is_rounded:
  "js_floor (over_1000 (js_times (js_times (fl 1400) (parseFloat ''0.7'')) (Num 50))) = Num 48"
  "\<lfloor>1400 * (7 / 10) * 50 / 1000 :: rat\<rfloor> = 49"
proof -
  have "parseFloat ''0.7'' = fl (7 / 10)"
    by (simp add: parseFloat_defs)
  also have "\<dots> = Num (3152519739159347 / 4503599627370496)"
    unfolding fl_def rounded_steps by simp
  finally have speed: "parseFloat ''0.7'' = Num (3152519739159347 / 4503599627370496)" .
  have "js_times (fl 1400) (parseFloat ''0.7'') =
      fl (1400 * (3152519739159347 / 4503599627370496))"
    by (simp only: speed fl_numeral js_times.simps) simp
  also have "\<dots> = Num (8620171161763839 / 8796093022208)"
    unfolding fl_def rounded_steps by simp
  finally have a: "js_times (fl 1400) (parseFloat ''0.7'') =
      Num (8620171161763839 / 8796093022208)" .
  have "js_times (Num (8620171161763839 / 8796093022208)) (Num 50) =
      fl (8620171161763839 / 8796093022208 * 50)"
    by (simp only: js_times.simps)
  also have "\<dots> = Num (6734508720127999 / 137438953472)"
    unfolding fl_def rounded_steps by simp
  finally have b: "js_times (Num (8620171161763839 / 8796093022208)) (Num 50) =
      Num (6734508720127999 / 137438953472)" .
  have "over_1000 (Num (6734508720127999 / 137438953472)) =
      fl (6734508720127999 / 137438953472 / 1000)"
    by (simp only: over_1000.simps)
  also have "\<dots> = Num (6896136929411071 / 140737488355328)"
    unfolding fl_def rounded_steps by simp
  finally have c: "over_1000 (Num (6734508720127999 / 137438953472)) =
      Num (6896136929411071 / 140737488355328)" .
  have "\<lfloor>6896136929411071 / 140737488355328 :: rat\<rfloor> = 48"
    by (simp add: floor_eq_iff)
  then show "js_floor (over_1000 (js_times (js_times (fl 1400) (parseFloat ''0.7'')) (Num 50))) =
      Num 48"
    by (simp only: a b c js_floor.simps) simp
  show "\<lfloor>1400 * (7 / 10) * 50 / 1000 :: rat\<rfloor> = 49"
    by simp
qed

subsection \<open>The elapsed-time formula\<close>




subsection \<open>Changing the speed\<close>

text \<open>
  Claim C6 as stated fails: the change handler checks nothing. With the control at 0
  or at -1 it returns normally and stores that speed, replacing the speed 1 of the
  viewer.
\<close>

theorem C6_nonpositive_speed_counterexample:
  "my_playback_speed demo = Num 1 \<and>
   returns (handle_speed_change ''0'' demo) \<and>
   my_playback_speed (state_of (handle_speed_change ''0'' demo)) = Num 0 \<and>
   returns (handle_speed_change ''-1'' demo) \<and>
   my_playback_speed (state_of (handle_speed_change ''-1'' demo)) = Num (- 1)"
  by (simp add: handle_speed_change_def parseFloat_defs returns_def state_of_def demo_fields)

text \<open>
  Claim C6, amended. A speed change never fails and checks nothing: whatever the value
  of the control, it stores the Number that \<open>parseFloat\<close> reads from it (positive, 0,
  negative or NaN alike) as the speed and changes nothing else, and the next run of the
  frame loop computes its index with that speed.
\<close>

theorem C6_speed_change:
  assumes "styles_resolve s"
  shows "returns (handle_speed_change control_value s) \<and>
         my_playback_speed (state_of (handle_speed_change control_value s)) =
           parseFloat control_value \<and>
         (state_of (handle_speed_change control_value s))
           \<lparr>my_playback_speed := my_playback_speed s\<rparr> = s \<and>
         (\<exists>s'. and_then (handle_speed_change control_value s) (render_and_schedule now) =
              Returns s' \<and>
            my_point_index s' =
              (let elapsed = fl (of_int now - of_int (my_play_started_at s));
                   next_index =
                     js_plus (my_point_index_offset s)
                       (js_floor (over_1000
                          (js_times (js_times elapsed (parseFloat control_value))
                             (samples_per_second (my_view_data s)))))
               in if js_ge next_index (js_int (my_gaze_len s)) then js_int (my_gaze_len s - 1)
                  else next_index))"
proof -
  define t where "t = s\<lparr>my_playback_speed := parseFloat control_value\<rparr>"
  have h: "handle_speed_change control_value s = Returns t"
    by (simp add: handle_speed_change_def t_def)
  have "styles_resolve t"
    using assms by (simp add: t_def)
  from render_and_schedule_Returns [OF this, of now]
  have "\<exists>s'. render_and_schedule now t = Returns s' \<and>
            my_point_index s' =
              (let elapsed = fl (of_int now - of_int (my_play_started_at s));
                   next_index =
                     js_plus (my_point_index_offset s)
                       (js_floor (over_1000
                          (js_times (js_times elapsed (parseFloat control_value))
                             (samples_per_second (my_view_data s)))))
               in if js_ge next_index (js_int (my_gaze_len s)) then js_int (my_gaze_len s - 1)
                  else next_index)"
    by (simp add: stored_index_def next_index_at_def elapsed_ms_def Let_def) (simp add: t_def)
  then show ?thesis
    by (simp add: h and_then_def returns_def state_of_def) (simp add: t_def)
qed

theorem C6_speed_change_witness:
  "styles_resolve demo \<and>
   returns (handle_speed_change ''2'' demo) \<and>
   my_playback_speed (state_of (handle_speed_change ''2'' demo)) = Num 2 \<and>
   (\<exists>s'. and_then (handle_speed_change ''2'' demo) (render_and_schedule 1000) = Returns s' \<and>
      my_point_index s' = Num 60) \<and>
   my_playback_speed (state_of (handle_speed_change ''fast'' demo)) = NaN \<and>
   (\<exists>s'. and_then (handle_speed_change ''fast'' demo) (render_and_schedule 1000) = Returns s' \<and>
      my_point_index s' = NaN)"
proof -
  have two: "parseFloat ''2'' = Num 2" and fast: "parseFloat ''fast'' = NaN"
    by (simp_all add: parseFloat_defs)
  from C6_speed_change [OF demo_styles_resolve, of "''2''" 1000]
  have "returns (handle_speed_change ''2'' demo)"
    and "my_playback_speed (state_of (handle_speed_change ''2'' demo)) = Num 2"
    and "\<exists>s'. and_then (handle_speed_change ''2'' demo) (render_and_schedule 1000) = Returns s' \<and>
      my_point_index s' = Num 60"
    by (simp_all add: two Let_def demo_fields js_int_def)
  moreover from C6_speed_change [OF demo_styles_resolve, of "''fast''" 1000]
  have "my_playback_speed (state_of (handle_speed_change ''fast'' demo)) = NaN"
    and "\<exists>s'. and_then (handle_speed_change ''fast'' demo) (render_and_schedule 1000) =
        Returns s' \<and> my_point_index s' = NaN"
    by (simp_all add: fast Let_def demo_fields js_int_def)
  ultimately show ?thesis
    using demo_styles_resolve by blast
qed

subsection \<open>Selecting a stimulus that does not exist\<close>

text \<open>
  Claim C7 as stated fails: the recording has three stimuli, and selecting number 5 ends
  in a TypeError, with the stimulus index of the viewer changed from 0 to 5.
\<close>

theorem C7_invalid_index_counterexample:
  "my_stim_index demo = 0 \<and>
   set_stim_index 5 demo = Throws TypeError (demo\<lparr>my_stim_index := 5\<rparr>) \<and>
   my_stim_index (demo\<lparr>my_stim_index := 5\<rparr>) = 5"
  by (simp add: set_stim_index_def js_index_def Let_def demo_fields)

text \<open>
  Claim C7, amended. Selecting an index outside the stimuli fails with a TypeError,
  raised when the missing navigation entry is used. By then the stimulus index has been
  overwritten with the given index; everything else (stimulus name and data, current
  index, index offset, session length) is as before.
\<close>

theorem C7_invalid_index:
  assumes "length (my_nav_array s) = length (stims (my_view_data s))"
    and "idx < 0 \<or> int (length (stims (my_view_data s))) \<le> idx"
  shows "set_stim_index idx s = Throws TypeError (s\<lparr>my_stim_index := idx\<rparr>)"
  using assms by (auto simp: set_stim_index_def js_index_def Let_def)

theorem C7_invalid_index_witness:
  "length (my_nav_array demo) = length (stims (my_view_data demo)) \<and>
   ((5::int) < 0 \<or> int (length (stims (my_view_data demo))) \<le> 5) \<and>
   set_stim_index 5 demo = Throws TypeError (demo\<lparr>my_stim_index := 5\<rparr>)"
proof -
  have h: "length (my_nav_array demo) = length (stims (my_view_data demo))"
    "(5::int) < 0 \<or> int (length (stims (my_view_data demo))) \<le> 5"
    by (simp_all add: demo_fields)
  from h C7_invalid_index [OF h] show ?thesis by blast
qed

subsection \<open>Playing while playing\<close>





subsection \<open>The end of a session and its first frame\<close>

text \<open>
  Claim C2 as stated fails in its sentence on the first frame. Play from the start, let
  the loop run at 1000 ms, click to pause, let the queued callback run at 1100 ms: the
  viewer stops with index offset 30 and current index 33. The click that resumes draws
  the frame of index 33 first, not the one of the index offset.
\<close>

theorem C2_first_frame_counterexample:
  "returns demo_paused \<and> \<not> my_playing (state_of demo_paused) \<and>
   my_point_index_offset (state_of demo_paused) = Num 30 \<and>
   my_point_index (state_of demo_paused) = Num 33 \<and>
   returns demo_resumed \<and> my_playing (state_of demo_resumed) \<and>
   draw_calls (state_of demo_resumed) = draw_calls (state_of demo_paused) @ [Num 33] \<and>
   my_point_index_offset (state_of demo_resumed) = Num 30"
  by (simp add: run demo_playing_def demo_paused_def demo_resumed_def)

text \<open>
  Claim C2, amended. A run of the frame loop whose next index has reached the session
  length stores the session length minus 1 as the current index, stops without queueing
  a callback, sets the index offset to the index it started with and draws the frame of
  that index. The first frame that \<open>play\<close> draws is the one at the current index it
  starts with: index 0, which is the index offset, when \<open>play\<close> resets the indices
  (from the start, or with the current index at the last sample or beyond), and the
  stored current index otherwise. The last sample may never be drawn: played from the
  start with the next callback 5000 ms later, the recording of 90 samples stops without
  index 89 among its frames.
\<close>

theorem C2_end_of_session:
  assumes "styles_resolve s"
  shows "(js_ge (next_index_at now s) (js_int (my_gaze_len s)) \<longrightarrow>
            (\<exists>s'. render_and_schedule now s = Returns s' \<and>
               my_point_index s' = js_int (my_gaze_len s - 1) \<and> \<not> my_playing s' \<and>
               timeouts s' = timeouts s \<and>
               my_point_index_offset s' = my_point_index s \<and>
               draw_calls s' = draw_calls s @ [my_point_index s])) \<and>
         (\<exists>s'. play from_start started now s = Returns s' \<and>
            draw_calls s' =
              draw_calls s @
                [if from_start \<or> js_ge (my_point_index s) (js_int (my_gaze_len s - 1)) then Num 0
                 else my_point_index s] \<and>
            (from_start \<or> js_ge (my_point_index s) (js_int (my_gaze_len s - 1)) \<longrightarrow>
               my_point_index_offset s' = Num 0)) \<and>
         (\<exists>r s'. play True 0 0 demo = Returns r \<and> timeout_fires 5000 r = Returns s' \<and>
            \<not> my_playing s' \<and> timeouts s' = 0 \<and> my_gaze_len s' = 90 \<and>
            draw_calls s' = [Num 0, Num 0])"
proof (intro conjI impI)
  assume "js_ge (next_index_at now s) (js_int (my_gaze_len s))"
  then show "\<exists>s'. render_and_schedule now s = Returns s' \<and>
               my_point_index s' = js_int (my_gaze_len s - 1) \<and> \<not> my_playing s' \<and>
               timeouts s' = timeouts s \<and>
               my_point_index_offset s' = my_point_index s \<and>
               draw_calls s' = draw_calls s @ [my_point_index s]"
    by (simp add: render_and_schedule_Returns [OF assms] before_draw_def stored_index_def)
next
  have r: "styles_resolve (at_play from_start started s)"
    using assms by (simp add: styles_resolve_at_play)
  show "\<exists>s'. play from_start started now s = Returns s' \<and>
            draw_calls s' =
              draw_calls s @
                [if from_start \<or> js_ge (my_point_index s) (js_int (my_gaze_len s - 1)) then Num 0
                 else my_point_index s] \<and>
            (from_start \<or> js_ge (my_point_index s) (js_int (my_gaze_len s - 1)) \<longrightarrow>
               my_point_index_offset s' = Num 0)"
    by (simp add: play_at_play render_and_schedule_Returns [OF r] before_draw_def)
       (simp add: at_play_def starts_over_def)
next
  show "\<exists>r s'. play True 0 0 demo = Returns r \<and> timeout_fires 5000 r = Returns s' \<and>
            \<not> my_playing s' \<and> timeouts s' = 0 \<and> my_gaze_len s' = 90 \<and>
            draw_calls s' = [Num 0, Num 0]"
    by (simp add: run)
qed

theorem C2_end_of_session_witness:
  "styles_resolve demo \<and> js_ge (next_index_at 5000 demo) (js_int (my_gaze_len demo)) \<and>
   (\<exists>s'. render_and_schedule 5000 demo = Returns s' \<and>
      my_point_index s' = Num 89 \<and> \<not> my_playing s' \<and> timeouts s' = 0 \<and>
      my_point_index_offset s' = Num 0 \<and> draw_calls s' = [Num 0]) \<and>
   (\<exists>s'. play True 0 5000 demo = Returns s' \<and> draw_calls s' = [Num 0] \<and>
      my_point_index_offset s' = Num 0)"
proof -
  have h: "js_ge (next_index_at 5000 demo) (js_int (my_gaze_len demo))"
    by (simp add: next_index_at_def elapsed_ms_def js_int_def demo_fields)
  from C2_end_of_session [OF demo_styles_resolve, of 5000 True 0] h demo_styles_resolve
  show ?thesis by (simp add: demo_fields js_int_def)
qed

subsection \<open>The order of the frames\<close>





lemma js_ge_NegInf: "x \<noteq> NaN \<Longrightarrow> js_ge x NegInf"
  by (cases x) simp_all





















end
